theory Spec2Isabelle
  imports Complex_Main "HOL-Library.Log_Nat"
begin

section \<open>The Beta-Bernoulli notebook: \<open>Bern\<close> and \<open>learn_p\<close>\<close>

text \<open>
  The notebook defines two functions. \<open>Bern(p)\<close> asks the module-level generator
  \<open>rng\<close> for one number and compares it with \<open>p\<close>; \<open>learn_p(p, n=150, plot=True)\<close>
  starts two integer counters at 1, runs \<open>for step in range(n)\<close>, and after the loop
  redraws the figure, prints three estimates and returns the counters.

  Python binds the locals \<open>step\<close> and \<open>Y\<close> only inside the loop (\<open>Y\<close> only when
  \<open>plot == True\<close>), and reads both after it, so each is an \<open>option\<close> here and reading an
  unbound one raises \<open>UnboundLocalError\<close>.
\<close>

subsection \<open>Values\<close>

text \<open>
  A Python float is a finite number, an infinity or a NaN. An order comparison of two
  floats (or of a float and an int) is exact, so the finite ones are compared as reals;
  every comparison with a NaN is false.
\<close>

datatype pyfloat = Finite real | PosInf | NegInf | NaN

fun float_less :: "pyfloat \<Rightarrow> pyfloat \<Rightarrow> bool" where
  "float_less NaN _ = False"
| "float_less _ NaN = False"
| "float_less (Finite x) (Finite y) = (x < y)"
| "float_less (Finite x) PosInf = True"
| "float_less (Finite x) NegInf = False"
| "float_less PosInf _ = False"
| "float_less NegInf NegInf = False"
| "float_less NegInf _ = True"


datatype error = UnboundLocalError string | ZeroDivisionError

text \<open>An error raised by a step ends the function; otherwise the next step runs.\<close>

definition bind_err :: "error + 'a \<Rightarrow> ('a \<Rightarrow> error + 'b) \<Rightarrow> error + 'b" where
  "bind_err m f = (case m of Inl e \<Rightarrow> Inl e | Inr x \<Rightarrow> f x)"

text \<open>Reading a local variable that may not have been assigned yet.\<close>

definition read_local :: "string \<Rightarrow> 'a option \<Rightarrow> error + 'a" where
  "read_local name v = (case v of None \<Rightarrow> Inl (UnboundLocalError name) | Some x \<Rightarrow> Inr x)"

subsection \<open>Doubles\<close>

text \<open>
  The three estimates are Python floats, that is doubles: the result of every operation
  is the exact result rounded to the nearest number with a 53-bit significand, a tie
  going to the even significand. A finite double is a rational number and is kept as
  one. \<open>round_half_even N D\<close> is the integer nearest to \<open>N / D\<close> (for \<open>D > 0\<close>),
  \<open>round_to s N D\<close> the multiple of \<open>2 ^ s\<close> nearest to it, \<open>binade N D\<close> the
  exponent \<open>e\<close> with \<open>2 ^ e \<le> N / D < 2 ^ (e + 1)\<close> (for \<open>N, D > 0\<close>), and
  \<open>round_double N D\<close> the double nearest to \<open>N / D\<close>: its unit is \<open>2 ^ (e - 52)\<close>,
  and \<open>2 ^ (- 1074)\<close> below the normal range.

  Not modelled: the upper end of the range. Where a result, or an int that is to be
  converted, is \<open>2 ^ 1024\<close> or more, Python raises \<open>OverflowError\<close>; here it is
  rounded like any other number. The quotients below are at most 1, and a counter is
  that large only after more than \<open>2 ^ 1023\<close> passes of the loop.
\<close>

definition round_half_even :: "int \<Rightarrow> int \<Rightarrow> int" where
  "round_half_even N D =
     (let q = N div D; r = N mod D
      in if 2 * r < D then q else if D < 2 * r then q + 1 else if even q then q else q + 1)"

definition round_to :: "int \<Rightarrow> int \<Rightarrow> int \<Rightarrow> rat" where
  "round_to s N D =
     of_int (if 0 \<le> s then round_half_even N (D * 2 ^ nat s)
             else round_half_even (N * 2 ^ nat (- s)) D) * 2 powi s"

definition pow2_le :: "int \<Rightarrow> int \<Rightarrow> int \<Rightarrow> bool" where
  "pow2_le e N D = (if 0 \<le> e then D * 2 ^ nat e \<le> N else D \<le> N * 2 ^ nat (- e))"

definition binade :: "int \<Rightarrow> int \<Rightarrow> int" where
  "binade N D = (let d = bitlen N - bitlen D in if pow2_le d N D then d else d - 1)"

definition round_double :: "int \<Rightarrow> int \<Rightarrow> rat" where
  "round_double N D =
     (if N = 0 then 0
      else if N < 0 then - round_to (max (binade (- N) D) (- 1022) - 52) (- N) D
      else round_to (max (binade N D) (- 1022) - 52) N D)"

definition round_rat :: "rat \<Rightarrow> rat" where
  "round_rat q = (case quotient_of q of (N, D) \<Rightarrow> round_double N D)"

text \<open>
  The operator \<open>/\<close> on two ints: \<open>ZeroDivisionError\<close> on a zero divisor, otherwise the
  double nearest to the quotient.
\<close>

definition int_truediv :: "int \<Rightarrow> int \<Rightarrow> error + rat" where
  "int_truediv a b =
     (if b = 0 then Inl ZeroDivisionError
      else if 0 < b then Inr (round_double a b) else Inr (round_double (- a) (- b)))"

text \<open>
  An int meeting a float in \<open>-\<close> is converted to the nearest double first; \<open>-\<close> and
  \<open>/\<close> on two floats round their exact result, and \<open>/\<close> raises on a zero divisor.
\<close>

definition float_of_int :: "int \<Rightarrow> rat" where
  "float_of_int k = round_double k 1"

definition float_sub :: "rat \<Rightarrow> rat \<Rightarrow> rat" where
  "float_sub x y = round_rat (x - y)"

definition float_truediv :: "rat \<Rightarrow> rat \<Rightarrow> error + rat" where
  "float_truediv x y = (if y = 0 then Inl ZeroDivisionError else Inr (round_rat (x / y)))"

subsection \<open>The random generator\<close>

text \<open>
  \<open>rng = np.random.default_rng()\<close> is an unseeded generator: the sequence of numbers it
  will hand out is a parameter of the model (\<open>tape\<close>), and the generator's state is how
  many of them it has handed out (\<open>pos\<close>). \<open>rng.random()\<close> returns the next one and
  advances; numpy promises a float in the half-open interval from 0 to 1, which the
  theorems that need it assume of the next \<open>k\<close> numbers on the tape
  (\<open>unit_draws g k\<close>).
\<close>

record rng_state =
  tape :: "nat \<Rightarrow> real"
  pos :: nat

definition rng_random :: "rng_state \<Rightarrow> real \<times> rng_state" where
  "rng_random g = (tape g (pos g), g\<lparr>pos := pos g + 1\<rparr>)"

definition unit_draws :: "rng_state \<Rightarrow> nat \<Rightarrow> bool" where
  "unit_draws g k =
     list_all (\<lambda>i. 0 \<le> tape g (pos g + i) \<and> tape g (pos g + i) < 1) [0..<k]"

text \<open>\<open>return 1 if rng.random() < p else 0\<close>\<close>

definition Bern :: "pyfloat \<Rightarrow> rng_state \<Rightarrow> int \<times> rng_state" where
  "Bern p g = (let (u, g') = rng_random g in (if float_less (Finite u) p then 1 else 0, g'))"

subsection \<open>What the notebook shows\<close>

text \<open>
  The figure is redrawn, displayed, cleared and paused on; the estimates are printed.
  A frame records the numbers that went into it: the three numbers of the title, the
  counters the density curve \<open>Y\<close> was computed from, and where the red line stands.
\<close>

record frame =
  title_step :: int
  title_N1 :: int
  title_N0 :: int
  curve :: "int \<times> int"
  marker :: pyfloat

datatype event =
    Display frame
  | Clear_output
  | Pause
  | Print rat rat rat

subsection \<open>\<open>learn_p\<close>\<close>

record state =
  alpha :: int
  beta :: int
  step :: "int option"
  Y :: "(int \<times> int) option"
  rng :: rng_state
  out :: "event list"

text \<open>\<open>alpha = beta = 1\<close>, nothing else bound, nothing shown yet.\<close>

definition init_state :: "rng_state \<Rightarrow> state" where
  "init_state g = \<lparr>alpha = 1, beta = 1, step = None, Y = None, rng = g, out = []\<rparr>"

text \<open>
  The redraw inside the loop, run when \<open>plot == True\<close>: it binds \<open>Y\<close> to the density
  of the current counters and shows the frame. (The two copies of the notebook differ
  in one place: this title shows \<open>step\<close> in one and \<open>step + 1\<close> in the other. The
  first is followed here; the title takes no part in what is computed.)
\<close>

definition draw_step :: "pyfloat \<Rightarrow> int \<Rightarrow> state \<Rightarrow> state" where
  "draw_step p i s =
     (let s1 = s\<lparr>Y := Some (alpha s, beta s)\<rparr>;
          f = \<lparr>title_step = i, title_N1 = alpha s1 - 1, title_N0 = beta s1 - 1,
               curve = (alpha s1, beta s1), marker = p\<rparr>
      in s1\<lparr>out := out s1 @ [Display f, Clear_output, Pause]\<rparr>)"

text \<open>One pass through the loop body with \<open>step = i\<close>.\<close>

definition loop_body :: "pyfloat \<Rightarrow> bool \<Rightarrow> int \<Rightarrow> state \<Rightarrow> state" where
  "loop_body p plot i s =
     (let s1 = s\<lparr>step := Some i\<rparr>;
          s2 = (if plot = True then draw_step p i s1 else s1);
          (flip, g') = Bern p (rng s2);
          s3 = s2\<lparr>rng := g'\<rparr>;
          s4 = s3\<lparr>beta := beta s3 + (1 - flip)\<rparr>
      in s4\<lparr>alpha := alpha s4 + flip\<rparr>)"

text \<open>\<open>for step in range(start, start + k)\<close>: the body at \<open>start\<close>, \<open>start + 1\<close>, ...\<close>

fun for_range :: "(int \<Rightarrow> 's \<Rightarrow> 's) \<Rightarrow> int \<Rightarrow> nat \<Rightarrow> 's \<Rightarrow> 's" where
  "for_range body i 0 s = s"
| "for_range body i (Suc k) s = for_range body (i + 1) k (body i s)"

text \<open>
  The state when the loop has made \<open>k\<close> passes, and the whole loop: \<open>range(n)\<close> is empty
  for \<open>n \<le> 0\<close> and has \<open>n\<close> elements otherwise, which is \<open>nat n\<close>.
\<close>

definition after_steps :: "pyfloat \<Rightarrow> bool \<Rightarrow> rng_state \<Rightarrow> nat \<Rightarrow> state" where
  "after_steps p plot g k = for_range (loop_body p plot) 0 k (init_state g)"

definition learn_loop :: "pyfloat \<Rightarrow> int \<Rightarrow> bool \<Rightarrow> rng_state \<Rightarrow> state" where
  "learn_loop p n plot g = after_steps p plot g (nat n)"

text \<open>
  The three numbers of the \<open>print\<close>, computed inside the f-string from left to right:
  \<open>(alpha-1)/(alpha+beta-2)\<close>, \<open>alpha/(alpha+beta)\<close> and
  \<open>(alpha-1/3)/(alpha+beta-2/3)\<close>. The first two divide ints; the third works on
  floats from \<open>1/3\<close> and \<open>2/3\<close> on.
\<close>

definition median_estimate :: "int \<Rightarrow> int \<Rightarrow> error + rat" where
  "median_estimate a b =
     bind_err (int_truediv 1 3) (\<lambda>third.
     bind_err (int_truediv 2 3) (\<lambda>two_thirds.
       float_truediv (float_sub (float_of_int a) third)
                     (float_sub (float_of_int (a + b)) two_thirds)))"

definition estimates :: "int \<Rightarrow> int \<Rightarrow> error + (rat \<times> rat \<times> rat)" where
  "estimates a b =
     bind_err (int_truediv (a - 1) (a + b - 2)) (\<lambda>map_est.
     bind_err (int_truediv a (a + b)) (\<lambda>mean_est.
     bind_err (median_estimate a b) (\<lambda>median_est.
     Inr (map_est, mean_est, median_est))))"

text \<open>
  The code after the loop: the title reads \<open>step\<close>, \<open>ax.plot(X, Y)\<close> reads \<open>Y\<close>, the
  figure is displayed, the three estimates are computed and printed, and the counters
  are returned.
\<close>

definition finish :: "pyfloat \<Rightarrow> state \<Rightarrow> error + ((int \<times> int) \<times> state)" where
  "finish p s =
     bind_err (read_local ''step'' (step s)) (\<lambda>i.
     bind_err (read_local ''Y'' (Y s)) (\<lambda>y.
       let f = \<lparr>title_step = i, title_N1 = alpha s - 1, title_N0 = beta s - 1,
                curve = y, marker = p\<rparr>;
           s1 = s\<lparr>out := out s @ [Display f]\<rparr>
       in
     bind_err (estimates (alpha s1) (beta s1)) (\<lambda>(map_est, mean_est, median_est).
     Inr ((alpha s1, beta s1),
          s1\<lparr>out := out s1 @ [Print map_est mean_est median_est]\<rparr>))))"

text \<open>
  A run of \<open>learn_p\<close>: the value returned or the error raised, with the state it ends in
  when it returns; and what the caller gets.
\<close>

definition learn_p_run ::
  "pyfloat \<Rightarrow> int \<Rightarrow> bool \<Rightarrow> rng_state \<Rightarrow> error + ((int \<times> int) \<times> state)" where
  "learn_p_run p n plot g = finish p (learn_loop p n plot g)"

definition learn_p :: "pyfloat \<Rightarrow> int \<Rightarrow> bool \<Rightarrow> rng_state \<Rightarrow> error + (int \<times> int)" where
  "learn_p p n plot g = map_sum id fst (learn_p_run p n plot g)"

text \<open>A call that may leave out \<open>n\<close> and \<open>plot\<close>: the defaults are 150 and \<open>True\<close>.\<close>

definition learn_p_call ::
  "pyfloat \<Rightarrow> int option \<Rightarrow> bool option \<Rightarrow> rng_state \<Rightarrow> error + (int \<times> int)" where
  "learn_p_call p n_arg plot_arg g =
     learn_p p (case n_arg of None \<Rightarrow> 150 | Some n \<Rightarrow> n)
               (case plot_arg of None \<Rightarrow> True | Some b \<Rightarrow> b) g"

subsection \<open>Reference notions and sample inputs\<close>

text \<open>
  The number of heads among the next \<open>k\<close> draws of a generator: the draws strictly less
  than \<open>p\<close>.
\<close>

definition heads :: "pyfloat \<Rightarrow> rng_state \<Rightarrow> nat \<Rightarrow> nat" where
  "heads p g k = length (filter (\<lambda>i. float_less (Finite (tape g (pos g + i))) p) [0..<k])"

definition tails :: "pyfloat \<Rightarrow> rng_state \<Rightarrow> nat \<Rightarrow> nat" where
  "tails p g k = length (filter (\<lambda>i. \<not> float_less (Finite (tape g (pos g + i))) p) [0..<k])"

text \<open>Two generators about to hand out the same next \<open>k\<close> numbers.\<close>

definition same_draws :: "rng_state \<Rightarrow> rng_state \<Rightarrow> nat \<Rightarrow> bool" where
  "same_draws g1 g2 k = list_all (\<lambda>i. tape g1 (pos g1 + i) = tape g2 (pos g2 + i)) [0..<k]"

text \<open>
  A fresh generator that hands out the numbers of a list and then goes on with zeros.
\<close>

definition sample_rng :: "real list \<Rightarrow> rng_state" where
  "sample_rng xs = \<lparr>tape = (\<lambda>i. if i < length xs then xs ! i else 0), pos = 0\<rparr>"

section \<open>Properties\<close>

subsection \<open>Rounding\<close>

text \<open>Rounding to the nearest integer stays on the same side of every integer.\<close>

lemma div_mod_parts:
  fixes N D :: int
  assumes "0 < D"
  shows "N = (N div D) * D + N mod D" "0 \<le> N mod D" "N mod D < D"
  using assms by simp_all

lemma rhe_ge:
  assumes "0 < D" and "K * D \<le> N"
  shows "K \<le> round_half_even N D"
proof -
  note dm = div_mod_parts [OF assms(1), of N]
  have "K \<le> N div D"
  proof (rule ccontr)
    assume "\<not> K \<le> N div D"
    then have "N div D + 1 \<le> K" by simp
    then have "(N div D + 1) * D \<le> K * D" using assms(1) by (simp only: mult_right_mono less_imp_le)
    then have "(N div D) * D + D \<le> K * D" by (simp add: algebra_simps)
    with dm assms(2) show False by linarith
  qed
  then show ?thesis by (simp add: round_half_even_def Let_def)
qed

lemma rhe_below_half:
  assumes "0 < D" and "2 * N < (2 * K + 1) * D"
  shows "round_half_even N D \<le> K"
proof -
  note dm = div_mod_parts [OF assms(1), of N]
  have le: "N div D \<le> K"
  proof (rule ccontr)
    assume "\<not> N div D \<le> K"
    then have "K + 1 \<le> N div D" by simp
    then have "(K + 1) * D \<le> (N div D) * D" using assms(1) by (simp only: mult_right_mono less_imp_le)
    then have "K * D + D \<le> (N div D) * D" by (simp add: algebra_simps)
    moreover have "(2 * K + 1) * D = 2 * (K * D) + D" by (simp add: algebra_simps)
    ultimately show False using dm assms by linarith
  qed
  show ?thesis
  proof (cases "N div D = K")
    case True
    have "(2 * K + 1) * D = 2 * (K * D) + D" by (simp add: algebra_simps)
    moreover have "N = K * D + N mod D" using dm(1) unfolding True .
    ultimately have "2 * (N mod D) < D" using assms(2) by linarith
    with True show ?thesis by (simp add: round_half_even_def Let_def)
  next
    case False
    with le have "N div D + 1 \<le> K" by simp
    then show ?thesis by (simp add: round_half_even_def Let_def)
  qed
qed

lemma rhe_le:
  assumes "0 < D" and "N \<le> K * D"
  shows "round_half_even N D \<le> K"
proof (rule rhe_below_half [OF assms(1)])
  have "(2 * K + 1) * D = 2 * (K * D) + D" by (simp add: algebra_simps)
  with assms show "2 * N < (2 * K + 1) * D" by linarith
qed

text \<open>Bounds on \<open>round_to\<close> by multiples of the unit.\<close>

lemma powi_pos: "0 \<le> s \<Longrightarrow> (2::rat) powi s = 2 ^ nat s"
  by (simp add: power_int_def)

lemma powi_neg: "s < 0 \<Longrightarrow> (2::rat) powi s = 1 / 2 ^ nat (- s)"
  by (simp add: power_int_def field_simps)

lemma round_to_ge:
  assumes "0 < D" and "of_int K * 2 powi s \<le> (of_int N / of_int D :: rat)"
  shows "of_int K * 2 powi s \<le> round_to s N D"
proof (cases "0 \<le> s")
  case True
  have "of_int K * 2 ^ nat s * of_int D \<le> (of_int N :: rat)"
    using assms True by (simp add: powi_pos field_simps)
  then have "(of_int (K * (D * 2 ^ nat s)) :: rat) \<le> of_int N" by (simp add: algebra_simps)
  then have "K * (D * 2 ^ nat s) \<le> N" by (simp only: of_int_le_iff)
  then have "K \<le> round_half_even N (D * 2 ^ nat s)" using assms(1) by (intro rhe_ge) simp_all
  then have "(of_int K :: rat) \<le> of_int (round_half_even N (D * 2 ^ nat s))" by simp
  then show ?thesis using True by (simp add: round_to_def powi_pos)
next
  case False
  then have neg: "s < 0" by simp
  have "of_int K * of_int D \<le> (of_int N :: rat) * 2 ^ nat (- s)"
    using assms neg by (simp add: powi_neg field_simps)
  then have "(of_int (K * D) :: rat) \<le> of_int (N * 2 ^ nat (- s))" by simp
  then have "K * D \<le> N * 2 ^ nat (- s)" by (simp only: of_int_le_iff)
  then have "K \<le> round_half_even (N * 2 ^ nat (- s)) D" using assms(1) by (intro rhe_ge)
  then have "(of_int K :: rat) \<le> of_int (round_half_even (N * 2 ^ nat (- s)) D)" by simp
  then show ?thesis using neg by (simp add: round_to_def powi_neg field_simps)
qed



lemma pow2_le_iff:
  assumes "0 < D"
  shows "pow2_le e N D \<longleftrightarrow> (2::rat) powi e \<le> of_int N / of_int D"
proof (cases "0 \<le> e")
  case True
  have "(D * 2 ^ nat e \<le> N) = ((of_int (D * 2 ^ nat e) :: rat) \<le> of_int N)"
    by (simp only: of_int_le_iff)
  then show ?thesis using True assms by (simp add: pow2_le_def powi_pos field_simps)
next
  case False
  then have neg: "e < 0" by simp
  have "(D \<le> N * 2 ^ nat (- e)) = ((of_int D :: rat) \<le> of_int (N * 2 ^ nat (- e)))"
    by (simp only: of_int_le_iff)
  then show ?thesis using neg assms by (simp add: pow2_le_def powi_neg field_simps)
qed

lemma bitlen_powi:
  assumes "0 < N"
  shows "(2::rat) powi (bitlen N - 1) \<le> of_int N" "(of_int N :: rat) < 2 powi bitlen N"
proof -
  from bitlen_bounds [OF assms] have lo: "2 ^ nat (bitlen N - 1) \<le> N" and hi: "N < 2 ^ nat (bitlen N)"
    by simp_all
  have b1: "1 \<le> bitlen N" using assms by (simp add: bitlen_alt_def)
  have "(of_int (2 ^ nat (bitlen N - 1)) :: rat) \<le> of_int N" using lo by (simp only: of_int_le_iff)
  then show "(2::rat) powi (bitlen N - 1) \<le> of_int N" using b1 by (simp add: powi_pos)
  have "(of_int N :: rat) < of_int (2 ^ nat (bitlen N))" using hi by (simp only: of_int_less_iff)
  then show "(of_int N :: rat) < 2 powi bitlen N" using b1 by (simp add: powi_pos)
qed

lemma binade_bounds:
  assumes "0 < N" and "0 < D"
  shows "(2::rat) powi binade N D \<le> of_int N / of_int D"
    and "(of_int N / of_int D :: rat) < 2 powi (binade N D + 1)"
proof -
  let ?x = "of_int N / of_int D :: rat"
  let ?d = "bitlen N - bitlen D"
  have Dpos: "(0::rat) < of_int D" using assms(2) by simp
  have "?x < 2 powi bitlen N / of_int D"
    using bitlen_powi(2) [OF assms(1)] Dpos by (simp add: divide_strict_right_mono)
  also have "\<dots> \<le> 2 powi bitlen N / 2 powi (bitlen D - 1)"
    using bitlen_powi(1) [OF assms(2)] by (intro frac_le) simp_all
  also have "\<dots> = 2 powi (?d + 1)"
    using power_int_diff [of "2::rat" "bitlen N" "bitlen D - 1"] by (simp add: algebra_simps)
  finally have up: "?x < 2 powi (?d + 1)" .
  have "(2::rat) powi (?d - 1) = 2 powi (bitlen N - 1) / 2 powi bitlen D"
    using power_int_diff [of "2::rat" "bitlen N - 1" "bitlen D"] by (simp add: algebra_simps)
  also have "\<dots> \<le> of_int N / 2 powi bitlen D"
    using bitlen_powi(1) [OF assms(1)] by (simp add: divide_right_mono)
  also have "\<dots> \<le> ?x"
    using bitlen_powi(2) [OF assms(2)] Dpos assms(1) by (intro frac_le) simp_all
  finally have lo: "(2::rat) powi (?d - 1) \<le> ?x" .
  show "(2::rat) powi binade N D \<le> ?x"
    using lo by (simp add: binade_def Let_def pow2_le_iff [OF assms(2)])
  show "?x < 2 powi (binade N D + 1)"
    using up by (simp add: binade_def Let_def pow2_le_iff [OF assms(2)] not_le)
qed

lemma binade_ge:
  assumes "0 < N" and "0 < D" and "(2::rat) powi m \<le> of_int N / of_int D"
  shows "m \<le> binade N D"
proof (rule ccontr)
  assume "\<not> m \<le> binade N D"
  then have "binade N D + 1 \<le> m" by simp
  then have "(2::rat) powi (binade N D + 1) \<le> 2 powi m" by (simp add: power_int_increasing)
  with binade_bounds(2) [OF assms(1,2)] assms(3) show False by simp
qed


lemma round_double_ge_pow2:
  assumes "0 < N" and "0 < D" and "- 1022 \<le> m" and "(2::rat) powi m \<le> of_int N / of_int D"
  shows "2 powi m \<le> round_double N D"
proof -
  let ?e = "binade N D"
  have me: "m \<le> ?e" using assms(1,2,4) by (rule binade_ge)
  with assms(3) have e: "- 1022 \<le> ?e" by simp
  have eq: "of_int (2 ^ 52) * (2::rat) powi (?e - 52) = 2 powi ?e"
    using power_int_diff [of "2::rat" ?e 52] by simp
  have le: "of_int (2 ^ 52) * (2::rat) powi (?e - 52) \<le> of_int N / of_int D"
    unfolding eq by (rule binade_bounds(1) [OF assms(1,2)])
  have "of_int (2 ^ 52) * (2::rat) powi (?e - 52) \<le> round_to (?e - 52) N D"
    using assms(2) le by (rule round_to_ge)
  then have "2 powi ?e \<le> round_double N D"
    using assms(1) e by (simp only: eq) (simp add: round_double_def max_def)
  moreover have "(2::rat) powi m \<le> 2 powi ?e" using me by (simp add: power_int_increasing)
  ultimately show ?thesis by simp
qed






text \<open>The values the median estimate starts from, and why its divisor is not zero.\<close>

lemma third_values:
  "int_truediv 1 3 = Inr (6004799503160661 / 18014398509481984)"
  "int_truediv 2 3 = Inr (6004799503160661 / 9007199254740992)"
  by code_simp+

lemma float_of_int_ge_two: "2 \<le> k \<Longrightarrow> 2 \<le> float_of_int k"
  using round_double_ge_pow2 [of k 1 1] by (simp add: float_of_int_def)

lemma round_rat_ge_one:
  assumes "1 \<le> q"
  shows "1 \<le> round_rat q"
proof -
  obtain N D where nd: "quotient_of q = (N, D)" by (cases "quotient_of q")
  have D: "0 < D" using nd by (rule quotient_of_denom_pos)
  have q: "q = of_int N / of_int D" using nd by (rule quotient_of_div)
  have "0 < of_int N / (of_int D :: rat)" using assms q by simp
  with D have N: "0 < N" by (simp add: zero_less_divide_iff)
  have "(2::rat) powi 0 \<le> round_double N D"
    using N D _ _ by (rule round_double_ge_pow2) (use assms q in simp_all)
  then show ?thesis by (simp add: round_rat_def nd)
qed

lemma median_estimate_returns:
  assumes "2 \<le> a + b"
  shows "\<exists>d. median_estimate a b = Inr d"
proof -
  let ?u = "6004799503160661 / 9007199254740992 :: rat"
  have "2 \<le> float_of_int (a + b)" using assms by (rule float_of_int_ge_two)
  then have "1 \<le> float_of_int (a + b) - ?u" by simp
  then have "1 \<le> float_sub (float_of_int (a + b)) ?u"
    unfolding float_sub_def by (rule round_rat_ge_one)
  then have "float_sub (float_of_int (a + b)) ?u \<noteq> 0" by simp
  then show ?thesis
    by (simp add: median_estimate_def third_values bind_err_def float_truediv_def)
qed

lemma estimates_returns:
  assumes "2 < a + b"
  shows "\<exists>map_est median_est. estimates a b = Inr (map_est, round_double a (a + b), median_est)"
proof -
  from assms have "2 \<le> a + b" by simp
  then obtain d where "median_estimate a b = Inr d" using median_estimate_returns by blast
  with assms show ?thesis by (simp add: estimates_def int_truediv_def bind_err_def)
qed

subsection \<open>One flip, one pass\<close>

lemma Bern_flip: "fst (Bern p g) = (if float_less (Finite (tape g (pos g))) p then 1 else 0)"
  by (simp add: Bern_def rng_random_def)

lemma Bern_rng: "snd (Bern p g) = g\<lparr>pos := pos g + 1\<rparr>"
  by (simp add: Bern_def rng_random_def)

lemma draw_step_fields:
  "alpha (draw_step p i s) = alpha s" "beta (draw_step p i s) = beta s"
  "rng (draw_step p i s) = rng s" "step (draw_step p i s) = step s"
  "Y (draw_step p i s) = Some (alpha s, beta s)"
  by (simp_all add: draw_step_def Let_def)

lemma loop_body_alpha: "alpha (loop_body p plot i s) = alpha s + fst (Bern p (rng s))"
  by (simp add: loop_body_def Let_def draw_step_fields split: prod.split)

lemma loop_body_beta: "beta (loop_body p plot i s) = beta s + (1 - fst (Bern p (rng s)))"
  by (simp add: loop_body_def Let_def draw_step_fields split: prod.split)

lemma loop_body_rng: "rng (loop_body p plot i s) = snd (Bern p (rng s))"
  by (simp add: loop_body_def Let_def draw_step_fields split: prod.split)

lemma loop_body_step: "step (loop_body p plot i s) = Some i"
  by (simp add: loop_body_def Let_def draw_step_fields split: prod.split)

lemma loop_body_Y: "Y (loop_body p plot i s) = (if plot then Some (alpha s, beta s) else Y s)"
  by (simp add: loop_body_def Let_def draw_step_fields split: prod.split)

subsection \<open>The loop\<close>

text \<open>The last pass of a loop of \<open>k + 1\<close> passes runs on the state the first \<open>k\<close> left.\<close>

lemma for_range_snoc: "for_range body i (Suc k) s = body (i + int k) (for_range body i k s)"
proof (induction k arbitrary: i s)
  case 0
  show ?case by simp
next
  case (Suc k)
  have "for_range body i (Suc (Suc k)) s = for_range body (i + 1) (Suc k) (body i s)"
    by simp
  also have "\<dots> = body (i + 1 + int k) (for_range body (i + 1) k (body i s))"
    by (rule Suc.IH)
  also have "\<dots> = body (i + int (Suc k)) (for_range body i (Suc k) s)"
    by (simp add: ac_simps)
  finally show ?case .
qed

lemma for_range_add:
  "for_range body i (k + m) s = for_range body (i + int k) m (for_range body i k s)"
proof (induction k arbitrary: i s)
  case 0
  show ?case by simp
next
  case (Suc k)
  show ?case using Suc.IH [of "i + 1" "body i s"] by (simp add: ac_simps)
qed

text \<open>A run of \<open>n\<close> passes goes through the state after each \<open>k \<le> n\<close> of them.\<close>

lemma learn_loop_through:
  assumes "k \<le> nat n"
  shows "learn_loop p n plot g =
    for_range (loop_body p plot) (int k) (nat n - k) (after_steps p plot g k)"
proof -
  have "nat n = k + (nat n - k)" using assms by simp
  then have "after_steps p plot g (nat n) = after_steps p plot g (k + (nat n - k))" by simp
  also have "\<dots> = for_range (loop_body p plot) (int k) (nat n - k) (after_steps p plot g k)"
    unfolding after_steps_def using for_range_add [of "loop_body p plot" 0 k] by simp
  finally show ?thesis by (simp add: learn_loop_def)
qed

lemma after_steps_0: "after_steps p plot g 0 = init_state g"
  by (simp add: after_steps_def)

lemma after_steps_Suc:
  "after_steps p plot g (Suc k) = loop_body p plot (int k) (after_steps p plot g k)"
  unfolding after_steps_def using for_range_snoc [of "loop_body p plot" 0 k "init_state g"]
  by simp

lemma after_steps_rng: "rng (after_steps p plot g k) = g\<lparr>pos := pos g + k\<rparr>"
proof (induction k)
  case 0
  show ?case by (simp add: after_steps_0 init_state_def)
next
  case (Suc k)
  show ?case by (simp add: after_steps_Suc loop_body_rng Bern_rng Suc.IH)
qed

lemma after_steps_flip:
  "fst (Bern p (rng (after_steps p plot g k))) =
     (if float_less (Finite (tape g (pos g + k))) p then 1 else 0)"
  by (simp add: Bern_flip after_steps_rng)

lemma heads_Suc:
  "heads p g (Suc k) =
     heads p g k + (if float_less (Finite (tape g (pos g + k))) p then 1 else 0)"
  by (simp add: heads_def)

lemma tails_Suc:
  "tails p g (Suc k) =
     tails p g k + (if float_less (Finite (tape g (pos g + k))) p then 0 else 1)"
  by (simp add: tails_def)

lemma heads_tails: "heads p g k + tails p g k = k"
  by (induction k) (simp_all add: heads_Suc tails_Suc, simp_all add: heads_def tails_def)

lemma after_steps_alpha: "alpha (after_steps p plot g k) = 1 + int (heads p g k)"
proof (induction k)
  case 0
  show ?case by (simp add: after_steps_0 init_state_def heads_def)
next
  case (Suc k)
  show ?case
    by (simp add: after_steps_Suc loop_body_alpha Bern_flip after_steps_rng Suc.IH heads_Suc)
qed

lemma after_steps_beta: "beta (after_steps p plot g k) = 1 + int (tails p g k)"
proof (induction k)
  case 0
  show ?case by (simp add: after_steps_0 init_state_def tails_def)
next
  case (Suc k)
  show ?case
    by (simp add: after_steps_Suc loop_body_beta Bern_flip after_steps_rng Suc.IH tails_Suc)
qed

lemma after_steps_sum:
  "alpha (after_steps p plot g k) + beta (after_steps p plot g k) = int k + 2"
  using heads_tails [of p g k] by (simp add: after_steps_alpha after_steps_beta)

lemma after_steps_step:
  "step (after_steps p plot g k) = (if k = 0 then None else Some (int k - 1))"
  by (cases k) (simp_all add: after_steps_0 init_state_def after_steps_Suc loop_body_step)

text \<open>
  With the plot on, \<open>Y\<close> after the loop is the density of the counters as they were
  before the last flip; with the plot off it is never bound.
\<close>

lemma after_steps_Y_plot:
  "Y (after_steps p True g (Suc k)) =
     Some (alpha (after_steps p True g k), beta (after_steps p True g k))"
  by (simp add: after_steps_Suc loop_body_Y)

lemma after_steps_Y_noplot: "Y (after_steps p False g k) = None"
  by (induction k) (simp_all add: after_steps_0 init_state_def after_steps_Suc loop_body_Y)

text \<open>The counters the loop leaves do not depend on the plot flag.\<close>

lemma learn_loop_counters_plot:
  "alpha (learn_loop p n plot g) = alpha (learn_loop p n True g) \<and>
   beta (learn_loop p n plot g) = beta (learn_loop p n True g)"
  by (simp add: learn_loop_def after_steps_alpha after_steps_beta)

subsection \<open>After the loop\<close>

lemma finish_unbound_step: "step s = None \<Longrightarrow> finish p s = Inl (UnboundLocalError ''step'')"
  by (simp add: finish_def read_local_def bind_err_def)

lemma finish_unbound_Y:
  "step s = Some i \<Longrightarrow> Y s = None \<Longrightarrow> finish p s = Inl (UnboundLocalError ''Y'')"
  by (simp add: finish_def read_local_def bind_err_def)

lemma finish_returns:
  assumes "step s = Some i" and "Y s = Some y" and "2 < alpha s + beta s"
  shows "\<exists>map_est median_est. finish p s =
    Inr ((alpha s, beta s),
      s\<lparr>out := out s @
        [Display \<lparr>title_step = i, title_N1 = alpha s - 1, title_N0 = beta s - 1,
                  curve = y, marker = p\<rparr>,
         Print map_est (round_double (alpha s) (alpha s + beta s)) median_est]\<rparr>)"
proof -
  from estimates_returns [OF assms(3)] obtain m d
    where "estimates (alpha s) (beta s) = Inr (m, round_double (alpha s) (alpha s + beta s), d)"
    by blast
  with assms(1,2) have "finish p s =
    Inr ((alpha s, beta s),
      s\<lparr>out := out s @
        [Display \<lparr>title_step = i, title_N1 = alpha s - 1, title_N0 = beta s - 1,
                  curve = y, marker = p\<rparr>,
         Print m (round_double (alpha s) (alpha s + beta s)) d]\<rparr>)"
    by (simp add: finish_def read_local_def bind_err_def Let_def)
  then show ?thesis by blast
qed

subsection \<open>What a run of \<open>learn_p\<close> does\<close>

text \<open>
  With no pass made, \<open>step\<close> is unbound when the title is built; with the plot off,
  \<open>Y\<close> is unbound at \<open>ax.plot(X, Y)\<close>; otherwise the run gets to \<open>return\<close>.
\<close>

lemma learn_p_run_cases:
  "learn_p_run p n plot g =
     (if n \<le> 0 then Inl (UnboundLocalError ''step'')
      else if \<not> plot then Inl (UnboundLocalError ''Y'')
      else finish p (after_steps p True g (nat n)))"
proof (cases "n \<le> 0")
  case True
  then show ?thesis
    by (simp add: learn_p_run_def learn_loop_def after_steps_0 init_state_def
        finish_unbound_step)
next
  case False
  then obtain k where k: "nat n = Suc k" by (cases "nat n") auto
  show ?thesis
  proof (cases plot)
    case True
    with False show ?thesis by (simp add: learn_p_run_def learn_loop_def)
  next
    case nop: False
    have "finish p (after_steps p False g (nat n)) = Inl (UnboundLocalError ''Y'')"
      by (rule finish_unbound_Y [where i = "int k"])
        (simp_all add: k after_steps_step after_steps_Y_noplot)
    with False nop show ?thesis by (simp add: learn_p_run_def learn_loop_def)
  qed
qed

lemma finish_after_steps:
  assumes "0 < n"
  shows "\<exists>map_est median_est. finish p (after_steps p True g (nat n)) =
    Inr ((1 + int (heads p g (nat n)), 1 + int (tails p g (nat n))),
      (after_steps p True g (nat n))\<lparr>out := out (after_steps p True g (nat n)) @
        [Display \<lparr>title_step = n - 1, title_N1 = int (heads p g (nat n)),
                  title_N0 = int (tails p g (nat n)),
                  curve = (1 + int (heads p g (nat n - 1)), 1 + int (tails p g (nat n - 1))),
                  marker = p\<rparr>,
         Print map_est (round_double (1 + int (heads p g (nat n))) (n + 2)) median_est]\<rparr>)"
proof -
  from assms obtain k where k: "nat n = Suc k" by (cases "nat n") auto
  let ?s = "after_steps p True g (nat n)"
  have st: "step ?s = Some (n - 1)" using assms by (simp add: after_steps_step)
  have y: "Y ?s = Some (1 + int (heads p g (nat n - 1)), 1 + int (tails p g (nat n - 1)))"
    by (simp add: k after_steps_Y_plot after_steps_alpha after_steps_beta)
  have sum: "alpha ?s + beta ?s = n + 2" using after_steps_sum [of p True g "nat n"] assms
    by simp
  have a: "alpha ?s = 1 + int (heads p g (nat n))" by (rule after_steps_alpha)
  have b: "beta ?s = 1 + int (tails p g (nat n))" by (rule after_steps_beta)
  have gt: "2 < alpha ?s + beta ?s" using sum assms by simp
  show ?thesis
    using finish_returns [OF st y gt, of p] by (simp only: sum) (simp add: a b)
qed

lemma learn_p_cases:
  "learn_p p n plot g =
     (if n \<le> 0 then Inl (UnboundLocalError ''step'')
      else if \<not> plot then Inl (UnboundLocalError ''Y'')
      else Inr (1 + int (heads p g (nat n)), 1 + int (tails p g (nat n))))"
proof (cases "0 < n \<and> plot")
  case False
  then show ?thesis by (auto simp add: learn_p_def learn_p_run_cases)
next
  case True
  then have "0 < n" by simp
  from finish_after_steps [OF this, of p g] True show ?thesis
    by (auto simp add: learn_p_def learn_p_run_cases)
qed

text \<open>So \<open>learn_p\<close> returns exactly when at least one pass is made with the plot on.\<close>

lemma learn_p_returns_iff: "(\<exists>r. learn_p p n plot g = Inr r) \<longleftrightarrow> 0 < n \<and> plot"
  by (auto simp add: learn_p_cases)




subsection \<open>Draws\<close>

lemma unit_draws_nth:
  "unit_draws g k \<Longrightarrow> i < k \<Longrightarrow> 0 \<le> tape g (pos g + i) \<and> tape g (pos g + i) < 1"
  by (simp add: unit_draws_def list_all_iff)

lemma same_draws_nth:
  "same_draws g1 g2 k \<Longrightarrow> i < k \<Longrightarrow> tape g1 (pos g1 + i) = tape g2 (pos g2 + i)"
  by (simp add: same_draws_def list_all_iff)

lemma heads_tails_cong:
  "(\<And>i. i < k \<Longrightarrow> tape g1 (pos g1 + i) = tape g2 (pos g2 + i)) \<Longrightarrow>
     heads p g1 k = heads p g2 k \<and> tails p g1 k = tails p g2 k"
  by (induction k) (simp_all add: heads_Suc tails_Suc, simp_all add: heads_def tails_def)

lemma heads_all:
  "(\<And>i. i < k \<Longrightarrow> float_less (Finite (tape g (pos g + i))) p) \<Longrightarrow>
     heads p g k = k \<and> tails p g k = 0"
  by (induction k) (simp_all add: heads_Suc tails_Suc, simp_all add: heads_def tails_def)

lemma heads_none:
  "(\<And>i. i < k \<Longrightarrow> \<not> float_less (Finite (tape g (pos g + i))) p) \<Longrightarrow>
     heads p g k = 0 \<and> tails p g k = k"
  by (induction k) (simp_all add: heads_Suc tails_Suc, simp_all add: heads_def tails_def)



text \<open>A NaN for \<open>p\<close> loses every comparison: every flip is 0, and the run returns.\<close>

lemma learn_p_nan: "1 \<le> n \<Longrightarrow> learn_p_call NaN (Some n) None g = Inr (1, n + 1)"
  using heads_none [of "nat n" g NaN] by (simp add: learn_p_call_def learn_p_cases)

section \<open>The claims\<close>

text \<open>
  C1. The claim: the plot flag does not affect the numeric result; with the same draws,
  \<open>learn_p\<close> with \<open>plot=True\<close> and with \<open>plot=False\<close> both return, and return the same
  counters. The code: with \<open>plot=False\<close> the loop never binds \<open>Y\<close>, and the redraw
  after the loop reads it, so the call raises \<open>UnboundLocalError\<close> instead of returning.
  Evaluated at \<open>p = 0.5\<close>, \<open>n = 1\<close> and the draw \<open>0.25\<close>: the call with the plot on
  returns \<open>(2, 1)\<close> and the call with the plot off raises.
\<close>

theorem learn_p_plot_off_raises:
  "learn_p (Finite (1 / 2)) 1 True (sample_rng [1 / 4]) = Inr (2, 1) \<and>
   learn_p (Finite (1 / 2)) 1 False (sample_rng [1 / 4]) = Inl (UnboundLocalError ''Y'')"
  by code_simp

text \<open>
  C2, as amended. A call of \<open>learn_p\<close> with \<open>n = 0\<close> does not return: it raises an error
  before it reaches \<open>return\<close>, for every \<open>p\<close> and either value of \<open>plot\<close>. The loop
  makes no pass, so at that moment the counters still hold the prior \<open>(1, 1)\<close>, no draw
  has been taken and nothing has been shown.
\<close>

theorem learn_p_zero_flips:
  "(\<exists>e. learn_p p 0 plot g = Inl e) \<and>
   alpha (learn_loop p 0 plot g) = 1 \<and> beta (learn_loop p 0 plot g) = 1 \<and>
   rng (learn_loop p 0 plot g) = g \<and> out (learn_loop p 0 plot g) = []"
  by (simp add: learn_p_cases learn_loop_def after_steps_0 init_state_def)

text \<open>
  The claim as it was stated (the call with \<open>n = 0\<close> returns normally, with the prior)
  fails at \<open>p = 0.5\<close>: the call \<open>learn_p(0.5, 0)\<close> raises.
\<close>

theorem learn_p_zero_flips_counterexample:
  "learn_p_call (Finite (1 / 2)) (Some 0) None (sample_rng [1 / 4])
     = Inl (UnboundLocalError ''step'') \<and>
   learn_p_call (Finite (1 / 2)) (Some 0) None (sample_rng [1 / 4]) \<noteq> Inr (1, 1)"
  by code_simp

text \<open>
  C3. Whenever \<open>learn_p\<close> returns, for any \<open>n\<close>, any \<open>p\<close> and any draws, the counters
  it returns add up to \<open>n + 2\<close>.
\<close>

theorem learn_p_counter_sum:
  assumes "learn_p p n plot g = Inr (a, b)"
  shows "a + b = n + 2"
proof -
  from assms have n: "0 < n"
    and a: "a = 1 + int (heads p g (nat n))" and b: "b = 1 + int (tails p g (nat n))"
    by (auto simp add: learn_p_cases split: if_splits)
  have "int (heads p g (nat n)) + int (tails p g (nat n)) = int (nat n)"
    using heads_tails [of p g "nat n"] by (simp only: of_nat_add [symmetric])
  with n a b show ?thesis by simp
qed

theorem learn_p_counter_sum_witness:
  "learn_p (Finite (1 / 2)) 3 True (sample_rng [1 / 4, 3 / 4, 1 / 8]) = Inr (3, 2) \<and>
   (3::int) + 2 = 3 + 2"
proof -
  have h: "learn_p (Finite (1 / 2)) 3 True (sample_rng [1 / 4, 3 / 4, 1 / 8]) = Inr (3, 2)"
    by code_simp
  show ?thesis using h learn_p_counter_sum [OF h] by simp
qed

text \<open>
  C4. A coin flip takes one draw from the generator and compares it with \<open>p\<close>: the flip
  is 1 exactly when the draw is strictly less than \<open>p\<close> and 0 otherwise, and the
  generator has moved on by one draw. In the loop, pass number \<open>k\<close> flips on draw number
  \<open>k\<close> and adds the flip to \<open>alpha\<close> and one minus the flip to \<open>beta\<close>.
\<close>

theorem Bern_compares_one_draw:
  "(fst (Bern p g) = 1) = float_less (Finite (tape g (pos g))) p \<and>
   (fst (Bern p g) = 0) = (\<not> float_less (Finite (tape g (pos g))) p) \<and>
   (fst (Bern (Finite x) g) = 1) = (tape g (pos g) < x) \<and>
   snd (Bern p g) = g\<lparr>pos := pos g + 1\<rparr> \<and>
   fst (Bern p (rng (after_steps p plot g k))) =
     (if float_less (Finite (tape g (pos g + k))) p then 1 else 0) \<and>
   alpha (after_steps p plot g (Suc k)) =
     alpha (after_steps p plot g k) + fst (Bern p (rng (after_steps p plot g k))) \<and>
   beta (after_steps p plot g (Suc k)) =
     beta (after_steps p plot g k) + (1 - fst (Bern p (rng (after_steps p plot g k))))"
  by (simp add: Bern_flip Bern_rng after_steps_rng after_steps_Suc loop_body_alpha
      loop_body_beta)

text \<open>
  C5. Both counters are at least 1 after every pass of the loop, and so in whatever
  \<open>learn_p\<close> returns, for any \<open>n\<close>, any \<open>p\<close> and any draws.
\<close>

theorem counters_at_least_one:
  "1 \<le> alpha (after_steps p plot g k) \<and> 1 \<le> beta (after_steps p plot g k) \<and>
   (learn_p p n plot g = Inr (a, b) \<longrightarrow> 1 \<le> a \<and> 1 \<le> b)"
  by (auto simp add: after_steps_alpha after_steps_beta learn_p_cases split: if_splits)

theorem counters_at_least_one_witness:
  "1 \<le> alpha (after_steps (Finite (1 / 2)) True (sample_rng [1 / 4, 3 / 4, 1 / 8]) 2) \<and>
   1 \<le> beta (after_steps (Finite (1 / 2)) True (sample_rng [1 / 4, 3 / 4, 1 / 8]) 2) \<and>
   learn_p (Finite (1 / 2)) 3 True (sample_rng [1 / 4, 3 / 4, 1 / 8]) = Inr (3, 2) \<and>
   (1::int) \<le> 3 \<and> (1::int) \<le> 2"
proof -
  have h: "learn_p (Finite (1 / 2)) 3 True (sample_rng [1 / 4, 3 / 4, 1 / 8]) = Inr (3, 2)"
    by code_simp
  show ?thesis
    using h counters_at_least_one [of "Finite (1 / 2)" True
        "sample_rng [1 / 4, 3 / 4, 1 / 8]" 2 3 3 2]
    by simp
qed



text \<open>
  C7. The call \<open>learn_p(1.0, 10)\<close>, with draws from the unit interval, flips 1 on every
  one of its 10 passes and returns \<open>(11, 1)\<close>.
\<close>

theorem learn_p_certain_heads:
  assumes "unit_draws g 10"
  shows "learn_p_call (Finite 1) (Some 10) None g = Inr (11, 1) \<and>
         (\<forall>k<10. fst (Bern (Finite 1) (rng (after_steps (Finite 1) True g k))) = 1)"
proof -
  have yes: "float_less (Finite (tape g (pos g + i))) (Finite 1)" if "i < 10" for i
    using unit_draws_nth [OF assms that] by simp
  from heads_all [of 10 g "Finite 1"] yes
  have "heads (Finite 1) g 10 = 10" "tails (Finite 1) g 10 = 0" by simp_all
  with yes show ?thesis
    by (simp add: learn_p_call_def learn_p_cases after_steps_flip)
qed

theorem learn_p_certain_heads_witness:
  "unit_draws (sample_rng [1 / 4, 3 / 4, 1 / 8, 0, 999 / 1000]) 10 \<and>
   learn_p_call (Finite 1) (Some 10) None (sample_rng [1 / 4, 3 / 4, 1 / 8, 0, 999 / 1000])
     = Inr (11, 1) \<and>
   fst (Bern (Finite 1) (rng (after_steps (Finite 1) True
     (sample_rng [1 / 4, 3 / 4, 1 / 8, 0, 999 / 1000]) 9))) = 1"
proof -
  have u: "unit_draws (sample_rng [1 / 4, 3 / 4, 1 / 8, 0, 999 / 1000]) 10" by code_simp
  have k: "(9::nat) < 10" by simp
  show ?thesis using u k learn_p_certain_heads [OF u] by simp
qed

text \<open>
  C8. The result of \<open>learn_p\<close> is determined by \<open>p\<close>, \<open>n\<close>, the flag and the \<open>n\<close> draws
  the run takes: two runs whose generators hand out the same \<open>n\<close> numbers end alike, with
  the same counters returned (or the same error raised).
\<close>

theorem learn_p_same_draws:
  assumes "same_draws g1 g2 (nat n)"
  shows "learn_p p n plot g1 = learn_p p n plot g2"
proof -
  have "heads p g1 (nat n) = heads p g2 (nat n) \<and> tails p g1 (nat n) = tails p g2 (nat n)"
    by (rule heads_tails_cong) (rule same_draws_nth [OF assms])
  then show ?thesis by (simp add: learn_p_cases)
qed

theorem learn_p_same_draws_witness:
  "same_draws (sample_rng [1 / 4, 3 / 4, 1 / 8]) \<lparr>tape = (\<lambda>i. (2 * real i + 1) / 4), pos = 0\<rparr>
     (nat 2) \<and>
   learn_p (Finite (1 / 2)) 2 True (sample_rng [1 / 4, 3 / 4, 1 / 8]) =
   learn_p (Finite (1 / 2)) 2 True \<lparr>tape = (\<lambda>i. (2 * real i + 1) / 4), pos = 0\<rparr>"
proof -
  have d: "same_draws (sample_rng [1 / 4, 3 / 4, 1 / 8])
    \<lparr>tape = (\<lambda>i. (2 * real i + 1) / 4), pos = 0\<rparr> (nat 2)"
    by code_simp
  show ?thesis using d learn_p_same_draws [OF d] by simp
qed

text \<open>
  C9. The counters \<open>learn_p\<close> returns are integers: \<open>alpha\<close> is 1 plus the number of the
  \<open>n\<close> draws that were strictly less than \<open>p\<close>, and \<open>beta\<close> is 1 plus the number of the
  others.
\<close>

theorem learn_p_counts_draws:
  assumes "learn_p p n plot g = Inr (a, b)"
  shows "a = 1 + int (heads p g (nat n)) \<and> b = 1 + int (tails p g (nat n)) \<and>
         heads p g (nat n) + tails p g (nat n) = nat n"
  using assms by (auto simp add: learn_p_cases heads_tails split: if_splits)

theorem learn_p_counts_draws_witness:
  "learn_p (Finite (1 / 2)) 4 True (sample_rng [1 / 4, 3 / 4, 1 / 8, 1 / 2]) = Inr (3, 3) \<and>
   (3::int) = 1 + int (heads (Finite (1 / 2)) (sample_rng [1 / 4, 3 / 4, 1 / 8, 1 / 2]) (nat 4)) \<and>
   (3::int) = 1 + int (tails (Finite (1 / 2)) (sample_rng [1 / 4, 3 / 4, 1 / 8, 1 / 2]) (nat 4))"
proof -
  have h: "learn_p (Finite (1 / 2)) 4 True (sample_rng [1 / 4, 3 / 4, 1 / 8, 1 / 2])
    = Inr (3, 3)"
    by code_simp
  show ?thesis using h learn_p_counts_draws [OF h] by simp
qed




end
